theory Spec2Isabelle
  imports Main "HOL-Library.Word"
begin

unbundle bit_operations_syntax

section \<open>Data model\<close>

text \<open>
  The wire types live in headers that are not part of the sources at hand
  (\<^verbatim>\<open>address.hh\<close>, \<^verbatim>\<open>ethernet_frame.hh\<close>, \<^verbatim>\<open>ipv4_datagram.hh\<close>,
  \<^verbatim>\<open>arp_message.hh\<close>). They are modelled with the fields that
  \<^verbatim>\<open>router.cc\<close> and \<^verbatim>\<open>network_interface.cc\<close> read and write.
  An Ethernet address is a six-byte array, here a 48-bit word; a payload is a
  vector of buffers, here a list of byte lists.
\<close>

type_synonym EthernetAddress = "48 word"
type_synonym Buffer = "8 word list"

text \<open>Modelled from the spec: the \<^verbatim>\<open>Address\<close> collaborator, of which only the
  conversion from and to the numeric IPv4 form is used.\<close>

datatype Address = from_ipv4_numeric (ipv4_numeric: "32 word")

text \<open>Modelled from the spec: the constants of section 6.3, declared in the
  missing headers.\<close>

definition ETHERNET_BROADCAST :: EthernetAddress where
  "ETHERNET_BROADCAST = 0xFFFFFFFFFFFF"

definition TYPE_IPv4 :: "16 word" where
  "TYPE_IPv4 = 0x800"

definition TYPE_ARP :: "16 word" where
  "TYPE_ARP = 0x806"

definition OPCODE_REQUEST :: "16 word" where
  "OPCODE_REQUEST = 1"

definition OPCODE_REPLY :: "16 word" where
  "OPCODE_REPLY = 2"

record IPv4Header =
  ttl :: "8 word"
  cksum :: "16 word"
  src :: "32 word"
  dst :: "32 word"

record InternetDatagram =
  header :: IPv4Header
  payload :: "Buffer list"

record EthernetHeader =
  dst :: EthernetAddress
  src :: EthernetAddress
  type :: "16 word"

record EthernetFrame =
  header :: EthernetHeader
  payload :: "Buffer list"

record ARPMessage =
  opcode :: "16 word"
  sender_ethernet_address :: EthernetAddress
  sender_ip_address :: "32 word"
  target_ethernet_address :: EthernetAddress
  target_ip_address :: "32 word"

text \<open>The two structures of \<^verbatim>\<open>network_interface.hh\<close>, and the interface with
  its three vectors. The time to live is a C++ \<^verbatim>\<open>int\<close>: a 32-bit word read as
  two's complement. The members \<^verbatim>\<open>ethernet_address_\<close>, \<^verbatim>\<open>ip_address_\<close>,
  \<^verbatim>\<open>interfaces_\<close> and \<^verbatim>\<open>datagrams_in_\<close> are written without the final underscore.
  Fields of the same name in two records are told apart by the record's name,
  as in \<open>ARPTableEntry.ttl\<close> and \<open>IPv4Header.ttl\<close>.\<close>

record IPQueue =
  ip_address :: "32 word"
  datagrams :: "InternetDatagram list"

record ARPTableEntry =
  complete_entry :: bool
  ip_address :: "32 word"
  mac_address :: EthernetAddress
  ttl :: "32 word"

record NetworkInterface =
  ethernet_address :: EthernetAddress
  ip_address :: Address
  ARPTable :: "ARPTableEntry list"
  ReadyToBeSentQueue :: "EthernetFrame list"
  IPQueues :: "IPQueue list"

text \<open>The codecs are external collaborators: \<^verbatim>\<open>serialize\<close> and \<^verbatim>\<open>parse\<close> for
  datagrams and ARP messages, and the checksum of an IPv4 header. They are
  parameters of the model.\<close>

record Codecs =
  serialize_dgram :: "InternetDatagram \<Rightarrow> Buffer list"
  serialize_arp :: "ARPMessage \<Rightarrow> Buffer list"
  parse_dgram :: "Buffer list \<Rightarrow> InternetDatagram option"
  parse_arp :: "Buffer list \<Rightarrow> ARPMessage option"
  checksum :: "IPv4Header \<Rightarrow> 16 word"

text \<open>What ends a call early: \<^verbatim>\<open>exit(1)\<close> after a failed sanity check, an index
  outside a vector, and a shift by a negative amount.\<close>

datatype error = SanityCheckExit | IndexOutOfRange | ShiftOutOfRange

section \<open>The network interface\<close>

definition NetworkInterface_init :: "EthernetAddress \<Rightarrow> Address \<Rightarrow> NetworkInterface" where
  "NetworkInterface_init mac ip =
     \<lparr> ethernet_address = mac, ip_address = ip,
       ARPTable = [], ReadyToBeSentQueue = [], IPQueues = [] \<rparr>"

definition makeArp ::
  "16 word \<Rightarrow> EthernetAddress \<Rightarrow> 32 word \<Rightarrow> EthernetAddress \<Rightarrow> 32 word \<Rightarrow> ARPMessage" where
  "makeArp oc sender_eth sender_ip target_eth target_ip =
     \<lparr> opcode = oc,
       sender_ethernet_address = sender_eth,
       sender_ip_address = sender_ip,
       target_ethernet_address = target_eth,
       target_ip_address = target_ip \<rparr>"

definition makeFrame ::
  "EthernetAddress \<Rightarrow> EthernetAddress \<Rightarrow> 16 word \<Rightarrow> Buffer list \<Rightarrow> EthernetFrame" where
  "makeFrame s d t p =
     \<lparr> EthernetFrame.header = \<lparr> EthernetHeader.dst = d, EthernetHeader.src = s, type = t \<rparr>,
       EthernetFrame.payload = p \<rparr>"

text \<open>The two lookups return the pair (index, found) that the source writes
  through its reference parameters. The scan stops at the first entry with
  the address.\<close>

fun isEntryInARPTable_from :: "int \<Rightarrow> ARPTableEntry list \<Rightarrow> 32 word \<Rightarrow> int \<times> int" where
  "isEntryInARPTable_from i [] ip = (-1, 0)"
| "isEntryInARPTable_from i (e # es) ip =
     (if ARPTableEntry.ip_address e = ip
      then (i, if complete_entry e then 2 else 1)
      else isEntryInARPTable_from (i + 1) es ip)"

definition isEntryInARPTable :: "ARPTableEntry list \<Rightarrow> 32 word \<Rightarrow> int \<times> int" where
  "isEntryInARPTable tbl ip = isEntryInARPTable_from 0 tbl ip"

fun isEntryInIPQueues_from :: "int \<Rightarrow> IPQueue list \<Rightarrow> 32 word \<Rightarrow> int \<times> int" where
  "isEntryInIPQueues_from i [] ip = (-1, 0)"
| "isEntryInIPQueues_from i (q # qs) ip =
     (if IPQueue.ip_address q = ip
      then (i, 1)
      else isEntryInIPQueues_from (i + 1) qs ip)"

definition isEntryInIPQueues :: "IPQueue list \<Rightarrow> 32 word \<Rightarrow> int \<times> int" where
  "isEntryInIPQueues qs ip = isEntryInIPQueues_from 0 qs ip"

text \<open>\<^verbatim>\<open>vector::erase(begin() + i)\<close>.\<close>

definition erase :: "nat \<Rightarrow> 'a list \<Rightarrow> 'a list" where
  "erase i xs = take i xs @ drop (Suc i) xs"

text \<open>\<^verbatim>\<open>send_datagram\<close>. The source tests \<^verbatim>\<open>foundARPTable\<close> against 2, 1 and 0 in
  three consecutive statements that do not change it, then exits if it had
  none of these values.\<close>

definition send_datagram ::
  "Codecs \<Rightarrow> 'a NetworkInterface_scheme \<Rightarrow> InternetDatagram \<Rightarrow> Address
     \<Rightarrow> error + 'a NetworkInterface_scheme" where
  "send_datagram c s dgram next_hop =
     (let next_hop_ip_address = ipv4_numeric next_hop;
          (indexARPTable, foundARPTable) = isEntryInARPTable (ARPTable s) next_hop_ip_address
      in
      if foundARPTable = 2 then
        Inr (s\<lparr>ReadyToBeSentQueue := ReadyToBeSentQueue s @
               [makeFrame (ethernet_address s)
                  (mac_address (ARPTable s ! nat indexARPTable))
                  TYPE_IPv4 (serialize_dgram c dgram)]\<rparr>)
      else if foundARPTable = 1 then
        (let (indexIPQueues, foundIPQueues) = isEntryInIPQueues (IPQueues s) next_hop_ip_address
         in
         if foundIPQueues \<noteq> 1 then Inl SanityCheckExit
         else
           Inr (s\<lparr>IPQueues := (IPQueues s)[nat indexIPQueues :=
                  (IPQueues s ! nat indexIPQueues)
                    \<lparr>datagrams := datagrams (IPQueues s ! nat indexIPQueues) @ [dgram]\<rparr>]\<rparr>))
      else if foundARPTable = 0 then
        (let (indexIPQueues, foundIPQueues) = isEntryInIPQueues (IPQueues s) next_hop_ip_address
         in
         if foundIPQueues \<noteq> 0 then Inl SanityCheckExit
         else
           (let entry = \<lparr> complete_entry = False,
                          ARPTableEntry.ip_address = next_hop_ip_address,
                          mac_address = 0,
                          ARPTableEntry.ttl = 5000 \<rparr>;
                ip_queue = \<lparr> IPQueue.ip_address = next_hop_ip_address, datagrams = [dgram] \<rparr>;
                arp = makeArp OPCODE_REQUEST (ethernet_address s)
                        (ipv4_numeric (NetworkInterface.ip_address s)) 0 next_hop_ip_address;
                frame = makeFrame (ethernet_address s) ETHERNET_BROADCAST TYPE_ARP
                          (serialize_arp c arp)
            in Inr (s\<lparr>ARPTable := ARPTable s @ [entry],
                      IPQueues := IPQueues s @ [ip_queue],
                      ReadyToBeSentQueue := ReadyToBeSentQueue s @ [frame]\<rparr>)))
      else Inl SanityCheckExit)"

text \<open>\<^verbatim>\<open>recv_frame\<close>, the part of the ARP branch that the source calls STEP 1: the
  cache and the queues are updated from the sender pair of the message. Both
  lookups are made before any update. The three tests of \<^verbatim>\<open>foundARPTable\<close> are
  consecutive statements that do not change it.\<close>

definition recv_arp_step1 ::
  "Codecs \<Rightarrow> 'a NetworkInterface_scheme \<Rightarrow> ARPMessage \<Rightarrow> error + 'a NetworkInterface_scheme" where
  "recv_arp_step1 c s arp =
     (let sender_eth = sender_ethernet_address arp;
          sender_ip = sender_ip_address arp;
          (indexARPTable, foundARPTable) = isEntryInARPTable (ARPTable s) sender_ip;
          (indexIPQueues, foundIPQueues) = isEntryInIPQueues (IPQueues s) sender_ip
      in
      if foundARPTable = 2 then
        (if foundIPQueues \<noteq> 0 then Inl SanityCheckExit
         else
           Inr (s\<lparr>ARPTable := (ARPTable s)[nat indexARPTable :=
                  (ARPTable s ! nat indexARPTable)\<lparr>ARPTableEntry.ttl := 30000\<rparr>]\<rparr>))
      else if foundARPTable = 1 then
        (if foundIPQueues \<noteq> 1 then Inl SanityCheckExit
         else
           Inr (s\<lparr>ARPTable := (ARPTable s)[nat indexARPTable :=
                    (ARPTable s ! nat indexARPTable)
                      \<lparr>mac_address := sender_eth, complete_entry := True,
                       ARPTableEntry.ttl := 30000\<rparr>],
                  ReadyToBeSentQueue := ReadyToBeSentQueue s @
                    map (\<lambda>d. makeFrame (ethernet_address s) sender_eth TYPE_IPv4
                               (serialize_dgram c d))
                      (datagrams (IPQueues s ! nat indexIPQueues)),
                  IPQueues := erase (nat indexIPQueues) (IPQueues s)\<rparr>))
      else if foundARPTable = 0 then
        (if foundIPQueues \<noteq> 0 then Inl SanityCheckExit
         else
           Inr (s\<lparr>ARPTable := ARPTable s @
                  [\<lparr> complete_entry = True,
                     ARPTableEntry.ip_address = sender_ip,
                     mac_address = sender_eth,
                     ARPTableEntry.ttl = 30000 \<rparr>]\<rparr>))
      else Inr s)"

text \<open>STEP 2: the reply to a request for the interface's own address.\<close>

definition recv_arp_step2 ::
  "Codecs \<Rightarrow> 'a NetworkInterface_scheme \<Rightarrow> ARPMessage \<Rightarrow> 'a NetworkInterface_scheme" where
  "recv_arp_step2 c s arp =
     (if opcode arp = OPCODE_REQUEST then
        (if target_ip_address arp = ipv4_numeric (NetworkInterface.ip_address s) then
           (let arp_response = makeArp OPCODE_REPLY (ethernet_address s)
                                 (ipv4_numeric (NetworkInterface.ip_address s))
                                 (sender_ethernet_address arp) (sender_ip_address arp);
                new_frame = makeFrame (ethernet_address s) (sender_ethernet_address arp)
                              TYPE_ARP (serialize_arp c arp_response)
            in s\<lparr>ReadyToBeSentQueue := ReadyToBeSentQueue s @ [new_frame]\<rparr>)
         else s)
      else s)"

definition recv_frame ::
  "Codecs \<Rightarrow> 'a NetworkInterface_scheme \<Rightarrow> EthernetFrame
     \<Rightarrow> error + ('a NetworkInterface_scheme \<times> InternetDatagram option)" where
  "recv_frame c s frame =
     (if \<not> (EthernetHeader.dst (EthernetFrame.header frame) = ethernet_address s
             \<or> EthernetHeader.dst (EthernetFrame.header frame) = ETHERNET_BROADCAST)
      then Inr (s, None)
      else if type (EthernetFrame.header frame) = TYPE_IPv4 then
        (case parse_dgram c (EthernetFrame.payload frame) of
           Some dgram \<Rightarrow> Inr (s, Some dgram)
         | None \<Rightarrow> Inr (s, None))
      else if type (EthernetFrame.header frame) = TYPE_ARP then
        (case parse_arp c (EthernetFrame.payload frame) of
           Some arp \<Rightarrow>
             (case recv_arp_step1 c s arp of
                Inl e \<Rightarrow> Inl e
              | Inr s1 \<Rightarrow> Inr (recv_arp_step2 c s1 arp, None))
         | None \<Rightarrow> Inr (s, None))
      else Inr (s, None))"

text \<open>\<^verbatim>\<open>tick\<close>. The loop runs over the table by index; after an erasure the index
  is decremented and then incremented by the loop, so it stays. The signed
  subtraction is modelled as two's complement wrap-around, and
  \<^verbatim>\<open>static_cast<int>\<close> of the 64-bit \<^verbatim>\<open>size_t\<close> keeps the low 32 bits.\<close>

function tick_loop ::
  "32 word \<Rightarrow> nat \<Rightarrow> ARPTableEntry list \<Rightarrow> IPQueue list
     \<Rightarrow> error + (ARPTableEntry list \<times> IPQueue list)" where
  "tick_loop m i tbl qs =
     (if i < length tbl then
        (let tbl1 = tbl[i := (tbl ! i)\<lparr>ARPTableEntry.ttl := ARPTableEntry.ttl (tbl ! i) - m\<rparr>]
         in
         if ARPTableEntry.ttl (tbl1 ! i) \<le>s 0 then
           (if \<not> complete_entry (tbl1 ! i) then
              (case isEntryInIPQueues qs (ARPTableEntry.ip_address (tbl1 ! i)) of
                 (indexIPQueues, foundIPQueues) \<Rightarrow>
                   if foundIPQueues \<noteq> 1 then Inl SanityCheckExit
                   else tick_loop m i (erase i tbl1) (erase (nat indexIPQueues) qs))
            else tick_loop m i (erase i tbl1) qs)
         else tick_loop m (i + 1) tbl1 qs)
      else Inr (tbl, qs))"
  by pat_completeness auto
termination
  by (relation "measure (\<lambda>(m, i, tbl, qs). length tbl - i)") (auto simp: erase_def)

declare tick_loop.simps [simp del]

definition tick ::
  "'a NetworkInterface_scheme \<Rightarrow> 64 word \<Rightarrow> error + 'a NetworkInterface_scheme" where
  "tick s ms_since_last_tick =
     (case tick_loop (ucast ms_since_last_tick) 0 (ARPTable s) (IPQueues s) of
        Inl e \<Rightarrow> Inl e
      | Inr (tbl, qs) \<Rightarrow> Inr (s\<lparr>ARPTable := tbl, IPQueues := qs\<rparr>))"


section \<open>The router\<close>

text \<open>\<^verbatim>\<open>AsyncNetworkInterface\<close> derives from \<^verbatim>\<open>NetworkInterface\<close> and adds the queue
  of received datagrams.\<close>

record AsyncNetworkInterface = NetworkInterface +
  datagrams_in :: "InternetDatagram list"

definition maybe_receive ::
  "AsyncNetworkInterface \<Rightarrow> InternetDatagram option \<times> AsyncNetworkInterface" where
  "maybe_receive a =
     (case datagrams_in a of
        [] \<Rightarrow> (None, a)
      | d # ds \<Rightarrow> (Some d, a\<lparr>datagrams_in := ds\<rparr>))"

definition async_recv_frame ::
  "Codecs \<Rightarrow> AsyncNetworkInterface \<Rightarrow> EthernetFrame \<Rightarrow> error + AsyncNetworkInterface" where
  "async_recv_frame c a frame =
     (case recv_frame c a frame of
        Inl e \<Rightarrow> Inl e
      | Inr (a1, None) \<Rightarrow> Inr a1
      | Inr (a1, Some d) \<Rightarrow> Inr (a1\<lparr>datagrams_in := datagrams_in a1 @ [d]\<rparr>))"

record RoutingTableEntry =
  route_prefix :: "32 word"
  prefix_length :: "8 word"
  next_hop :: "Address option"
  interface_num :: nat

definition RoutingTableEntry_default :: RoutingTableEntry where
  "RoutingTableEntry_default =
     \<lparr> route_prefix = 0, prefix_length = 0, next_hop = None, interface_num = 0 \<rparr>"

record Router =
  interfaces :: "AsyncNetworkInterface list"
  RoutingTable :: "RoutingTableEntry list"

definition Router_init :: Router where
  "Router_init = \<lparr> interfaces = [], RoutingTable = [] \<rparr>"

definition add_interface :: "Router \<Rightarrow> AsyncNetworkInterface \<Rightarrow> nat \<times> Router" where
  "add_interface r a =
     (length (interfaces r @ [a]) - 1, r\<lparr>interfaces := interfaces r @ [a]\<rparr>)"

definition add_route ::
  "Router \<Rightarrow> 32 word \<Rightarrow> 8 word \<Rightarrow> Address option \<Rightarrow> nat \<Rightarrow> Router" where
  "add_route r rp pl nh n =
     r\<lparr>RoutingTable := RoutingTable r @
         [\<lparr> route_prefix = rp, prefix_length = pl, next_hop = nh, interface_num = n \<rparr>]\<rparr>"

text \<open>\<^verbatim>\<open>isPrefixMatch\<close>. For a length above 32 the source shifts by a negative
  amount, which has no defined result: the model returns an error there.\<close>

definition isPrefixMatch :: "32 word \<Rightarrow> 32 word \<Rightarrow> 8 word \<Rightarrow> error + bool" where
  "isPrefixMatch ip_address1 ip_address2 pl =
     (if pl = 0 then Inr True
      else if 32 < pl then Inl ShiftOutOfRange
      else
        (let mask = (if pl = 32 then 0xFFFFFFFF
                     else push_bit (32 - unat pl) (NOT 0)) :: 32 word
         in Inr ((ip_address1 AND mask) = (ip_address2 AND mask))))"

text \<open>The scan of the routing table, with the candidate entry and the longest
  length so far (an \<^verbatim>\<open>int\<close> that starts at -999).\<close>

fun lpm_scan ::
  "32 word \<Rightarrow> RoutingTableEntry list \<Rightarrow> RoutingTableEntry \<times> int
     \<Rightarrow> error + (RoutingTableEntry \<times> int)" where
  "lpm_scan d [] acc = Inr acc"
| "lpm_scan d (e # es) (table_entry, longest_prefix_length) =
     (case isPrefixMatch d (route_prefix e) (prefix_length e) of
        Inl x \<Rightarrow> Inl x
      | Inr m \<Rightarrow>
          if m \<and> longest_prefix_length < uint (prefix_length e)
          then lpm_scan d es (e, uint (prefix_length e))
          else lpm_scan d es (table_entry, longest_prefix_length))"

text \<open>Modelled from the spec: \<^verbatim>\<open>IPv4Header::compute_checksum\<close>, which recomputes
  the checksum field from the header.\<close>

definition compute_checksum :: "Codecs \<Rightarrow> IPv4Header \<Rightarrow> IPv4Header" where
  "compute_checksum c h = h\<lparr>cksum := checksum c h\<rparr>"

text \<open>The body of the inner loop of \<^verbatim>\<open>route\<close>: what is done with one datagram.\<close>

definition route_datagram :: "Codecs \<Rightarrow> Router \<Rightarrow> InternetDatagram \<Rightarrow> error + Router" where
  "route_datagram c r datagram =
     (case lpm_scan (IPv4Header.dst (InternetDatagram.header datagram)) (RoutingTable r)
             (RoutingTableEntry_default, -999) of
        Inl x \<Rightarrow> Inl x
      | Inr (table_entry, longest_prefix_length) \<Rightarrow>
          if 0 \<le> longest_prefix_length then
            (if 1 < IPv4Header.ttl (InternetDatagram.header datagram) then
               (let h1 = (InternetDatagram.header datagram)
                           \<lparr>IPv4Header.ttl :=
                              IPv4Header.ttl (InternetDatagram.header datagram) - 1\<rparr>;
                    dg = datagram\<lparr>InternetDatagram.header := compute_checksum c h1\<rparr>;
                    hop = (case next_hop table_entry of
                             Some a \<Rightarrow> a
                           | None \<Rightarrow>
                               from_ipv4_numeric (IPv4Header.dst (InternetDatagram.header dg)))
                in
                if interface_num table_entry < length (interfaces r) then
                  (case send_datagram c (interfaces r ! interface_num table_entry) dg hop of
                     Inl x \<Rightarrow> Inl x
                   | Inr a \<Rightarrow>
                       Inr (r\<lparr>interfaces := (interfaces r)[interface_num table_entry := a]\<rparr>))
                else Inl IndexOutOfRange)
             else Inr r)
          else Inr r)"

text \<open>\<^verbatim>\<open>route\<close>: for each interface in index order, the received datagrams are
  taken one at a time until \<^verbatim>\<open>maybe_receive\<close> returns nothing.\<close>

function route_drain :: "Codecs \<Rightarrow> nat \<Rightarrow> Router \<Rightarrow> error + Router" where
  "route_drain c i r =
     (if i < length (interfaces r) then
        (case maybe_receive (interfaces r ! i) of
           (None, a) \<Rightarrow> Inr r
         | (Some datagram, a) \<Rightarrow>
             (case route_datagram c (r\<lparr>interfaces := (interfaces r)[i := a]\<rparr>) datagram of
                Inl x \<Rightarrow> Inl x
              | Inr r1 \<Rightarrow> route_drain c i r1))
      else Inr r)"
  by pat_completeness auto
termination
proof (relation "measure (\<lambda>(c, i, r). length (datagrams_in (interfaces r ! i)))", simp, goal_cases)
  case (1 c i r x a d r1)
  have sd: "datagrams_in s' = datagrams_in s"
    if "send_datagram c s dg hop = Inr s'" for s s' :: AsyncNetworkInterface and dg hop
    using that
    by (auto simp: send_datagram_def Let_def split: prod.splits if_splits)
  have rd: "map datagrams_in (interfaces r') = map datagrams_in (interfaces r0)"
    if "route_datagram c r0 dg = Inr r'" for r0 r' dg
    using that
    by (auto simp: route_datagram_def Let_def map_update list_update_same_conv
             split: sum.splits prod.splits if_splits option.splits dest!: sd)
  let ?r0 = "r\<lparr>interfaces := (interfaces r)[i := a]\<rparr>"
  from 1 have "map datagrams_in (interfaces r1) = map datagrams_in (interfaces ?r0)"
    using rd by blast
  then have len: "length (interfaces r1) = length (interfaces ?r0)"
    and nth: "map datagrams_in (interfaces r1) ! i = map datagrams_in (interfaces ?r0) ! i"
    by (metis length_map, simp)
  from 1 have "datagrams_in a = tl (datagrams_in (interfaces r ! i))" "datagrams_in (interfaces r ! i) \<noteq> []"
    by (auto simp: maybe_receive_def split: list.splits)
  with 1 len nth show ?case by (auto simp: nth_list_update)
qed


function route_from :: "Codecs \<Rightarrow> nat \<Rightarrow> Router \<Rightarrow> error + Router" where
  "route_from c i r =
     (if i < length (interfaces r) then
        (case route_drain c i r of
           Inl x \<Rightarrow> Inl x
         | Inr r1 \<Rightarrow> route_from c (i + 1) r1)
      else Inr r)"
  by pat_completeness auto
termination
proof (relation "measure (\<lambda>(c, i, r). length (interfaces r) - i)", simp, goal_cases)
  case (1 c i r r1)
  have rd: "length (interfaces r') = length (interfaces r0)"
    if "route_datagram c' r0 dg = Inr r'" for c' r0 r' dg
    using that
    by (auto simp: route_datagram_def Let_def
             split: sum.splits prod.splits if_splits option.splits)
  have "route_drain c i r = Inr r1 \<Longrightarrow> length (interfaces r1) = length (interfaces r)"
  proof (induction c i r rule: route_drain.induct)
    case (1 c i r)
    show ?case
    proof (cases "i < length (interfaces r)")
      case False
      with "1.prems" show ?thesis by simp
    next
      case True
      obtain x a where mr: "maybe_receive (interfaces r ! i) = (x, a)"
        by (cases "maybe_receive (interfaces r ! i)")
      show ?thesis
      proof (cases x)
        case None
        with True mr "1.prems" show ?thesis by simp
      next
        case (Some d)
        let ?r0 = "r\<lparr>interfaces := (interfaces r)[i := a]\<rparr>"
        from True mr Some "1.prems" obtain r2 where
          r2: "route_datagram c ?r0 d = Inr r2" and rest: "route_drain c i r2 = Inr r1"
          by (auto split: sum.splits)
        from "1.IH" [OF True mr [symmetric] Some r2 rest]
        have "length (interfaces r1) = length (interfaces r2)" .
        with rd [OF r2] show ?thesis by simp
      qed
    qed
  qed
  with 1 show ?case by auto
qed

declare route_drain.simps [simp del] route_from.simps [simp del]

definition route :: "Codecs \<Rightarrow> Router \<Rightarrow> error + Router" where
  "route c r = route_from c 0 r"

section \<open>Sequences of calls and the state invariant\<close>




text \<open>The invariant of the cache and the queues: one entry per address, one
  queue per address, a queue exactly for the addresses with an incomplete
  entry, and a positive time to live in every entry.\<close>

definition arp_inv :: "'a NetworkInterface_scheme \<Rightarrow> bool" where
  "arp_inv s \<longleftrightarrow>
     distinct (map ARPTableEntry.ip_address (ARPTable s)) \<and>
     distinct (map IPQueue.ip_address (IPQueues s)) \<and>
     set (map IPQueue.ip_address (IPQueues s)) =
       set (map ARPTableEntry.ip_address (filter (\<lambda>e. \<not> complete_entry e) (ARPTable s))) \<and>
     list_all (\<lambda>e. 0 <s ARPTableEntry.ttl e) (ARPTable s)"

section \<open>Specification-level notions\<close>

text \<open>Following the spec's words: the mask that has its top \<open>n\<close> bits set, and
  is all-zero when \<open>n\<close> is 0; and an entry matches a destination when both
  agree under the mask of the entry's prefix length.\<close>

definition prefix_mask :: "nat \<Rightarrow> 32 word" where
  "prefix_mask n = NOT (mask (32 - n))"

definition matches :: "32 word \<Rightarrow> RoutingTableEntry \<Rightarrow> bool" where
  "matches d e \<longleftrightarrow>
     (d AND prefix_mask (unat (prefix_length e))) =
     (route_prefix e AND prefix_mask (unat (prefix_length e)))"





text \<open>What \<^verbatim>\<open>tick\<close> does to one entry, for the 32-bit amount \<open>m\<close> it subtracts:
  the entry with its time to live decreased, and whether it expires.\<close>

definition aged :: "32 word \<Rightarrow> ARPTableEntry \<Rightarrow> ARPTableEntry" where
  "aged m e = e\<lparr>ARPTableEntry.ttl := ARPTableEntry.ttl e - m\<rparr>"

definition expired :: "32 word \<Rightarrow> ARPTableEntry \<Rightarrow> bool" where
  "expired m e \<longleftrightarrow> ARPTableEntry.ttl e - m \<le>s 0"

section \<open>Example values\<close>

text \<open>Toy collaborators on which the model can be evaluated: an ARP message is
  one buffer of five bytes, a datagram one buffer with its time to live and
  destination followed by its payload.\<close>

definition example_codecs :: Codecs where
  "example_codecs =
     \<lparr> serialize_dgram =
         (\<lambda>d. [IPv4Header.ttl (InternetDatagram.header d),
                 ucast (IPv4Header.dst (InternetDatagram.header d))]
               # InternetDatagram.payload d),
       serialize_arp =
         (\<lambda>a. [[ucast (opcode a), ucast (sender_ethernet_address a),
                  ucast (sender_ip_address a), ucast (target_ethernet_address a),
                  ucast (target_ip_address a)]]),
       parse_dgram =
         (\<lambda>b. case b of
                 [t, d] # p \<Rightarrow>
                   Some \<lparr> InternetDatagram.header =
                            \<lparr> IPv4Header.ttl = t, cksum = 0, IPv4Header.src = 0,
                              IPv4Header.dst = ucast d \<rparr>,
                          InternetDatagram.payload = p \<rparr>
               | _ \<Rightarrow> None),
       parse_arp =
         (\<lambda>b. case b of
                 [[oc, sm, sp, tm, tp]] \<Rightarrow>
                   Some \<lparr> opcode = ucast oc, sender_ethernet_address = ucast sm,
                          sender_ip_address = ucast sp, target_ethernet_address = ucast tm,
                          target_ip_address = ucast tp \<rparr>
               | _ \<Rightarrow> None),
       checksum = (\<lambda>h. ucast (IPv4Header.ttl h) + ucast (IPv4Header.dst h)) \<rparr>"

definition example_dgram :: "8 word \<Rightarrow> 32 word \<Rightarrow> InternetDatagram" where
  "example_dgram t d =
     \<lparr> InternetDatagram.header =
         \<lparr> IPv4Header.ttl = t, cksum = 0, IPv4Header.src = 0, IPv4Header.dst = d \<rparr>,
       InternetDatagram.payload = [] \<rparr>"

text \<open>An interface with address 1 (Ethernet) and 10 (IP), empty, then with a
  resolved entry for address 20, then with an incomplete entry for address 30
  and a datagram waiting for it.\<close>

definition example_iface :: NetworkInterface where
  "example_iface = NetworkInterface_init 1 (from_ipv4_numeric 10)"

definition example_resolved :: NetworkInterface where
  "example_resolved =
     example_iface\<lparr>ARPTable :=
       [\<lparr> complete_entry = True, ARPTableEntry.ip_address = 20,
          mac_address = 2, ARPTableEntry.ttl = 12000 \<rparr>]\<rparr>"

definition example_pending :: NetworkInterface where
  "example_pending =
     example_iface\<lparr>ARPTable :=
         [\<lparr> complete_entry = False, ARPTableEntry.ip_address = 30,
            mac_address = 0, ARPTableEntry.ttl = 5000 \<rparr>],
       IPQueues :=
         [\<lparr> IPQueue.ip_address = 30, datagrams = [example_dgram 64 30] \<rparr>]\<rparr>"


text \<open>A router with two empty interfaces and three routes: 10.0.0.0/8 directly
  attached on interface 0, 10.1.0.0/16 through 10.0.0.7 on interface 1, and
  the same prefix once more, directly attached on interface 0.\<close>

definition example_async :: "EthernetAddress \<Rightarrow> 32 word \<Rightarrow> AsyncNetworkInterface" where
  "example_async mac ip =
     \<lparr> ethernet_address = mac, ip_address = from_ipv4_numeric ip,
       ARPTable = [], ReadyToBeSentQueue = [], IPQueues = [], datagrams_in = [] \<rparr>"

definition example_routes :: "RoutingTableEntry list" where
  "example_routes =
     [\<lparr> route_prefix = 0x0A000000, prefix_length = 8, next_hop = None, interface_num = 0 \<rparr>,
      \<lparr> route_prefix = 0x0A010000, prefix_length = 16,
        next_hop = Some (from_ipv4_numeric 0x0A000007), interface_num = 1 \<rparr>,
      \<lparr> route_prefix = 0x0A010000, prefix_length = 16, next_hop = None, interface_num = 0 \<rparr>]"

definition example_router :: Router where
  "example_router =
     \<lparr> interfaces = [example_async 1 0x0A000001, example_async 2 0xC0A80001],
       RoutingTable = example_routes \<rparr>"

section \<open>Lookups\<close>


lemma isEntryInIPQueues_from_eq:
  "isEntryInIPQueues_from i qs ip =
     (case find (\<lambda>q. IPQueue.ip_address q = ip) qs of
        None \<Rightarrow> (-1, 0)
      | Some q \<Rightarrow>
          (i + int (length (takeWhile (\<lambda>q. IPQueue.ip_address q \<noteq> ip) qs)), 1))"
  by (induction qs arbitrary: i) (auto split: option.splits)




lemma distinct_key_find:
  "distinct (map f xs) \<Longrightarrow> x \<in> set xs \<Longrightarrow> find (\<lambda>y. f y = f x) xs = Some x"
  by (induction xs) (auto simp: image_iff)


lemma distinct_key_erase:
  "distinct (map f xs) \<Longrightarrow> find (\<lambda>y. f y = k) xs = Some x \<Longrightarrow>
     erase (length (takeWhile (\<lambda>y. f y \<noteq> k) xs)) xs = filter (\<lambda>y. f y \<noteq> k) xs"
proof (induction xs)
  case Nil
  then show ?case by simp
next
  case (Cons y ys)
  show ?case
  proof (cases "f y = k")
    case True
    with Cons.prems have "\<forall>z\<in>set ys. f z \<noteq> k" by (auto simp: image_iff)
    then have "filter (\<lambda>y. f y \<noteq> k) ys = ys" by (simp add: filter_id_conv)
    with True show ?thesis by (simp add: erase_def)
  next
    case False
    with Cons show ?thesis by (simp add: erase_def)
  qed
qed





lemma isEntryInIPQueues_Some:
  "find (\<lambda>q. IPQueue.ip_address q = ip) qs = Some q \<Longrightarrow>
     isEntryInIPQueues qs ip =
       (int (length (takeWhile (\<lambda>q. IPQueue.ip_address q \<noteq> ip) qs)), 1)"
  by (simp add: isEntryInIPQueues_def isEntryInIPQueues_from_eq)


lemma arp_inv_queue_iff:
  assumes "arp_inv s"
  shows "ip \<in> IPQueue.ip_address ` set (IPQueues s) \<longleftrightarrow>
         (\<exists>e\<in>set (ARPTable s). \<not> complete_entry e \<and> ARPTableEntry.ip_address e = ip)"
proof -
  from assms have "IPQueue.ip_address ` set (IPQueues s) =
      ARPTableEntry.ip_address ` {e \<in> set (ARPTable s). \<not> complete_entry e}"
    unfolding arp_inv_def by simp
  then show ?thesis by (simp add: image_iff) blast
qed




section \<open>Sending a datagram\<close>






lemma example_resolved_inv: "arp_inv example_resolved"
  by (simp add: arp_inv_def example_resolved_def example_iface_def NetworkInterface_init_def
        word_sless_alt)

lemma example_pending_inv: "arp_inv example_pending"
  by (simp add: arp_inv_def example_pending_def example_iface_def NetworkInterface_init_def
        word_sless_alt)


section \<open>Receiving an ARP message\<close>



























section \<open>The passage of time\<close>

lemma erase_length_append: "erase (length pre) (pre @ x # es) = pre @ es"
  by (simp add: erase_def)

lemma tick_loop_step:
  "tick_loop m (length pre) (pre @ e # es) qs =
     (if expired m e then
        (if \<not> complete_entry e then
           (case isEntryInIPQueues qs (ARPTableEntry.ip_address e) of
              (indexIPQueues, foundIPQueues) \<Rightarrow>
                if foundIPQueues \<noteq> 1 then Inl SanityCheckExit
                else tick_loop m (length pre) (pre @ es) (erase (nat indexIPQueues) qs))
         else tick_loop m (length pre) (pre @ es) qs)
      else tick_loop m (length (pre @ [aged m e])) ((pre @ [aged m e]) @ es) qs)"
  by (subst tick_loop.simps)
     (simp add: expired_def aged_def erase_length_append Let_def split: prod.splits)

lemma tick_loop_done: "tick_loop m (length pre) pre qs = Inr (pre, qs)"
  by (subst tick_loop.simps) simp

lemma tick_loop_eq:
  assumes "distinct (map ARPTableEntry.ip_address es)"
    "distinct (map IPQueue.ip_address qs)"
    "\<forall>e\<in>set es. \<not> complete_entry e \<longrightarrow>
       ARPTableEntry.ip_address e \<in> IPQueue.ip_address ` set qs"
  shows "tick_loop m (length pre) (pre @ es) qs =
           Inr (pre @ map (aged m) (filter (\<lambda>e. \<not> expired m e) es),
                filter (\<lambda>q. IPQueue.ip_address q \<notin>
                   ARPTableEntry.ip_address ` {e \<in> set es. expired m e \<and> \<not> complete_entry e}) qs)"
  using assms
proof (induction es arbitrary: pre qs)
  case Nil
  then show ?case by (simp add: tick_loop_done)
next
  case (Cons e es)
  from Cons.prems have d: "distinct (map ARPTableEntry.ip_address es)"
    and ne: "\<forall>x\<in>set es. ARPTableEntry.ip_address x \<noteq> ARPTableEntry.ip_address e"
    by (auto simp: image_iff)
  show ?case
  proof (cases "expired m e")
    case False
    from Cons.prems have p: "\<forall>e\<in>set es. \<not> complete_entry e \<longrightarrow>
       ARPTableEntry.ip_address e \<in> IPQueue.ip_address ` set qs" by simp
    have S: "{x. (x = e \<or> x \<in> set es) \<and> expired m x \<and> \<not> complete_entry x} =
             {x \<in> set es. expired m x \<and> \<not> complete_entry x}"
      using False by auto
    from Cons.IH [OF d Cons.prems(2) p, of "pre @ [aged m e]"] False
    show ?thesis by (simp add: tick_loop_step S del: append_assoc)
  next
    case True
    show ?thesis
    proof (cases "complete_entry e")
      case ce: True
      from Cons.prems have p: "\<forall>e\<in>set es. \<not> complete_entry e \<longrightarrow>
         ARPTableEntry.ip_address e \<in> IPQueue.ip_address ` set qs" by simp
      have S: "{x. (x = e \<or> x \<in> set es) \<and> expired m x \<and> \<not> complete_entry x} =
               {x \<in> set es. expired m x \<and> \<not> complete_entry x}"
        using ce by auto
      from Cons.IH [OF d Cons.prems(2) p, of pre] True ce
      show ?thesis by (simp add: tick_loop_step S)
    next
      case ce: False
      with Cons.prems(3) have "ARPTableEntry.ip_address e \<in> IPQueue.ip_address ` set qs"
        by simp
      then obtain q where q: "q \<in> set qs"
        "IPQueue.ip_address q = ARPTableEntry.ip_address e" by (auto simp: image_iff)
      from distinct_key_find [OF Cons.prems(2) q(1)] q(2)
      have f: "find (\<lambda>x. IPQueue.ip_address x = ARPTableEntry.ip_address e) qs = Some q"
        by simp
      let ?qs1 = "filter (\<lambda>x. IPQueue.ip_address x \<noteq> ARPTableEntry.ip_address e) qs"
      have er: "erase (length (takeWhile (\<lambda>x. IPQueue.ip_address x \<noteq> ARPTableEntry.ip_address e) qs)) qs = ?qs1"
        by (rule distinct_key_erase [OF Cons.prems(2) f])
      have d1: "distinct (map IPQueue.ip_address ?qs1)"
        using Cons.prems(2) by (simp add: distinct_map_filter)
      have p1: "\<forall>x\<in>set es. \<not> complete_entry x \<longrightarrow>
         ARPTableEntry.ip_address x \<in> IPQueue.ip_address ` set ?qs1"
      proof (intro ballI impI)
        fix x assume x: "x \<in> set es" "\<not> complete_entry x"
        with Cons.prems(3) have "ARPTableEntry.ip_address x \<in> IPQueue.ip_address ` set qs"
          by simp
        then obtain q' where "q' \<in> set qs"
          "IPQueue.ip_address q' = ARPTableEntry.ip_address x"
          by (metis imageE)
        moreover from ne x(1) have "ARPTableEntry.ip_address x \<noteq> ARPTableEntry.ip_address e"
          by blast
        ultimately show "ARPTableEntry.ip_address x \<in> IPQueue.ip_address ` set ?qs1"
          by (auto simp: image_iff intro!: bexI [of _ q'])
      qed
      have S: "{x. (x = e \<or> x \<in> set es) \<and> expired m x \<and> \<not> complete_entry x} =
               insert e {x \<in> set es. expired m x \<and> \<not> complete_entry x}"
        using ce True by auto
      have F: "filter (\<lambda>q. IPQueue.ip_address q \<notin>
                   ARPTableEntry.ip_address ` {e \<in> set es. expired m e \<and> \<not> complete_entry e}) ?qs1 =
               filter (\<lambda>q. IPQueue.ip_address q \<notin>
                   ARPTableEntry.ip_address ` insert e {e \<in> set es. expired m e \<and> \<not> complete_entry e}) qs"
        by (auto intro: filter_cong)
      from Cons.IH [OF d d1 p1, of pre] True ce
      show ?thesis
        by (simp add: tick_loop_step isEntryInIPQueues_Some [OF f] er S F)
    qed
  qed
qed


lemma tick_eq:
  assumes inv: "arp_inv s"
  shows "tick s ms =
           Inr (s\<lparr>ARPTable :=
                    map (aged (ucast ms)) (filter (\<lambda>e. \<not> expired (ucast ms) e) (ARPTable s)),
                  IPQueues :=
                    filter (\<lambda>q. IPQueue.ip_address q \<notin> set (map ARPTableEntry.ip_address
                              (filter (\<lambda>e. expired (ucast ms) e \<and> \<not> complete_entry e)
                                 (ARPTable s))))
                      (IPQueues s)\<rparr>)"
proof -
  from inv have d: "distinct (map ARPTableEntry.ip_address (ARPTable s))"
    and dq: "distinct (map IPQueue.ip_address (IPQueues s))"
    by (simp_all add: arp_inv_def)
  have p: "\<forall>e\<in>set (ARPTable s). \<not> complete_entry e \<longrightarrow>
       ARPTableEntry.ip_address e \<in> IPQueue.ip_address ` set (IPQueues s)"
    using arp_inv_queue_iff [OF inv] by blast
  from tick_loop_eq [OF d dq p, of "ucast ms" "[]"]
  have "tick s ms =
           Inr (s\<lparr>ARPTable :=
                    map (aged (ucast ms)) (filter (\<lambda>e. \<not> expired (ucast ms) e) (ARPTable s)),
                  IPQueues :=
                    filter (\<lambda>q. IPQueue.ip_address q \<notin> ARPTableEntry.ip_address `
                              {e \<in> set (ARPTable s). expired (ucast ms) e \<and> \<not> complete_entry e})
                      (IPQueues s)\<rparr>)"
    by (simp add: tick_def)
  then show ?thesis by simp
qed

lemma uint_ucast_small: fixes ms :: "64 word" assumes "uint ms < 2 ^ 31"
  shows "uint (ucast ms :: 32 word) = uint ms"
proof -
  have "uint (ucast ms :: 32 word) = take_bit 32 (uint ms)"
    by (simp add: unsigned_ucast_eq)
  also have "\<dots> = uint ms"
    using assms by (intro take_bit_int_eq_self) simp_all
  finally show ?thesis .
qed

lemma sint_ucast_small: fixes ms :: "64 word" assumes "uint ms < 2 ^ 31"
  shows "sint (ucast ms :: 32 word) = uint ms"
proof -
  have "sint (ucast ms :: 32 word) = signed_take_bit 31 (uint (ucast ms :: 32 word))"
    by (simp add: sint_uint)
  also have "\<dots> = signed_take_bit 31 (uint ms)"
    by (simp only: uint_ucast_small [OF assms])
  also have "\<dots> = uint ms"
  proof (rule signed_take_bit_int_eq_self)
    show "- (2 ^ 31) \<le> uint ms" by (rule order_trans [OF _ uint_ge_0]) simp
    show "uint ms < 2 ^ 31" by (rule assms)
  qed
  finally show ?thesis .
qed

lemma sint_sub_ucast:
  fixes t :: "32 word" and ms :: "64 word"
  assumes "0 <s t" "uint ms < 2 ^ 31"
  shows "sint (t - ucast ms) = sint t - uint ms"
proof -
  have a: "0 < sint t" using assms(1) by (simp add: word_sless_alt)
  have b: "sint t < 2 ^ 31" using sint_lt [of t] by simp
  have c: "0 \<le> uint ms" by simp
  have "sint (t - ucast ms) = signed_take_bit 31 (sint t - sint (ucast ms :: 32 word))"
    by (simp add: sint_word_ariths)
  also have "\<dots> = signed_take_bit 31 (sint t - uint ms)"
    by (simp only: sint_ucast_small [OF assms(2)])
  also have "\<dots> = sint t - uint ms"
  proof (rule signed_take_bit_int_eq_self)
    from a assms(2) show "- (2 ^ 31) \<le> sint t - uint ms" by linarith
    from b c show "sint t - uint ms < 2 ^ 31" by linarith
  qed
  finally show ?thesis .
qed


lemma aged_fields [simp]:
  "ARPTableEntry.ip_address (aged m e) = ARPTableEntry.ip_address e"
  "complete_entry (aged m e) = complete_entry e"
  "mac_address (aged m e) = mac_address e"
  "ARPTableEntry.ttl (aged m e) = ARPTableEntry.ttl e - m"
  by (simp_all add: aged_def)

lemma arp_inv_ttl: "arp_inv s \<Longrightarrow> e \<in> set (ARPTable s) \<Longrightarrow> 0 <s ARPTableEntry.ttl e"
  by (simp add: arp_inv_def list_all_iff)

lemma expired_small:
  fixes ms :: "64 word"
  assumes "0 <s ARPTableEntry.ttl e" "ms < 0x80000000"
  shows "expired (ucast ms) e \<longleftrightarrow> sint (ARPTableEntry.ttl e) - uint ms \<le> 0"
proof -
  from assms(2) have "uint ms < 2 ^ 31" by (simp add: word_less_def)
  from sint_sub_ucast [OF assms(1) this] show ?thesis
    by (simp add: expired_def word_sle_eq)
qed

text \<open>Where the conversion to \<^verbatim>\<open>int\<close> keeps the value, that is for fewer than
  \<open>2\<^sup>3\<^sup>1\<close> milliseconds, \<^verbatim>\<open>tick\<close> does what its comments say in every state that
  satisfies the invariant: the amount is subtracted from every entry's time
  to live, as integers; the entries whose result is not positive are removed;
  the queues of the removed incomplete entries are removed with them, without
  any frame; the other queues and the frames to be sent are unchanged.\<close>

theorem tick_subtracts:
  fixes ms :: "64 word"
  assumes inv: "arp_inv s" and small: "ms < 0x80000000"
  shows "tick s ms =
           Inr (s\<lparr>ARPTable :=
                    map (\<lambda>e. e\<lparr>ARPTableEntry.ttl := ARPTableEntry.ttl e - ucast ms\<rparr>)
                      (filter (\<lambda>e. 0 < sint (ARPTableEntry.ttl e) - uint ms) (ARPTable s)),
                  IPQueues :=
                    filter (\<lambda>q. IPQueue.ip_address q \<notin> set (map ARPTableEntry.ip_address
                              (filter (\<lambda>e. sint (ARPTableEntry.ttl e) - uint ms \<le> 0 \<and>
                                           \<not> complete_entry e)
                                 (ARPTable s))))
                      (IPQueues s)\<rparr>)
       \<and> (\<forall>e\<in>set (ARPTable s).
            sint (ARPTableEntry.ttl e - ucast ms) = sint (ARPTableEntry.ttl e) - uint ms)"
proof
  have ex: "expired (ucast ms) e \<longleftrightarrow> sint (ARPTableEntry.ttl e) - uint ms \<le> 0"
    if "e \<in> set (ARPTable s)" for e
    using expired_small [OF arp_inv_ttl [OF inv that] small] .
  have f: "filter (\<lambda>e. \<not> expired (ucast ms) e) (ARPTable s) =
           filter (\<lambda>e. 0 < sint (ARPTableEntry.ttl e) - uint ms) (ARPTable s)"
    by (rule filter_cong [OF refl]) (simp add: ex not_le)
  have S: "filter (\<lambda>e. expired (ucast ms) e \<and> \<not> complete_entry e) (ARPTable s) =
           filter (\<lambda>e. sint (ARPTableEntry.ttl e) - uint ms \<le> 0 \<and> \<not> complete_entry e)
             (ARPTable s)"
    by (rule filter_cong [OF refl]) (simp add: ex)
  have a: "aged (ucast ms) = (\<lambda>e. e\<lparr>ARPTableEntry.ttl := ARPTableEntry.ttl e - ucast ms\<rparr>)"
    by (simp add: fun_eq_iff aged_def)
  show "tick s ms =
           Inr (s\<lparr>ARPTable :=
                    map (\<lambda>e. e\<lparr>ARPTableEntry.ttl := ARPTableEntry.ttl e - ucast ms\<rparr>)
                      (filter (\<lambda>e. 0 < sint (ARPTableEntry.ttl e) - uint ms) (ARPTable s)),
                  IPQueues :=
                    filter (\<lambda>q. IPQueue.ip_address q \<notin> set (map ARPTableEntry.ip_address
                              (filter (\<lambda>e. sint (ARPTableEntry.ttl e) - uint ms \<le> 0 \<and>
                                           \<not> complete_entry e)
                                 (ARPTable s))))
                      (IPQueues s)\<rparr>)"
    by (simp only: tick_eq [OF inv] f S a)
  from small have u: "uint ms < 2 ^ 31" by (simp add: word_less_def)
  show "\<forall>e\<in>set (ARPTable s).
            sint (ARPTableEntry.ttl e - ucast ms) = sint (ARPTableEntry.ttl e) - uint ms"
    using sint_sub_ucast [OF arp_inv_ttl [OF inv] u] by blast
qed

theorem tick_subtracts_witness:
  "tick example_pending 5000 = Inr example_iface
   \<and> tick example_resolved 2000 =
       Inr (example_resolved\<lparr>ARPTable :=
              [\<lparr> complete_entry = True, ARPTableEntry.ip_address = 20,
                 mac_address = 2, ARPTableEntry.ttl = 10000 \<rparr>]\<rparr>)"
proof
  show "tick example_pending 5000 = Inr example_iface"
    using tick_subtracts [OF example_pending_inv, of 5000]
    by (simp add: example_pending_def example_iface_def NetworkInterface_init_def)
  show "tick example_resolved 2000 =
       Inr (example_resolved\<lparr>ARPTable :=
              [\<lparr> complete_entry = True, ARPTableEntry.ip_address = 20,
                 mac_address = 2, ARPTableEntry.ttl = 10000 \<rparr>]\<rparr>)"
    using tick_subtracts [OF example_resolved_inv, of 2000]
    by (simp add: example_resolved_def example_iface_def NetworkInterface_init_def)
qed

text \<open>Claim C6. Every call of \<^verbatim>\<open>tick\<close> should subtract the elapsed milliseconds
  from the time to live of every entry and remove the entries that reach
  zero or less. The code does not do so for \<open>2\<^sup>3\<^sup>1\<close> milliseconds or more: the
  conversion of the 64-bit amount to \<^verbatim>\<open>int\<close> keeps its low 32 bits. With \<open>2\<^sup>3\<^sup>2\<close>
  milliseconds nothing is subtracted, and the entry with 12000 ms left stays
  as it is although 12000 - \<open>2\<^sup>3\<^sup>2\<close> is not positive; with \<open>2\<^sup>3\<^sup>2\<close> - 1
  milliseconds the amount becomes -1 and the time to live rises to 12001.\<close>

theorem tick_truncates_elapsed_time:
  "tick example_resolved 4294967296 = Inr example_resolved
   \<and> tick example_resolved 4294967295 =
       Inr (example_resolved\<lparr>ARPTable :=
              [\<lparr> complete_entry = True, ARPTableEntry.ip_address = 20,
                 mac_address = 2, ARPTableEntry.ttl = 12001 \<rparr>]\<rparr>)
   \<and> ARPTable example_resolved =
       [\<lparr> complete_entry = True, ARPTableEntry.ip_address = 20,
          mac_address = 2, ARPTableEntry.ttl = 12000 \<rparr>]
   \<and> (12000 :: int) - 4294967296 \<le> 0
   \<and> (12000 :: int) - 4294967295 \<le> 0"
  using tick_eq [OF example_resolved_inv, of 4294967296]
    tick_eq [OF example_resolved_inv, of 4294967295]
  by (simp add: expired_def aged_def word_sle_eq
        example_resolved_def example_iface_def NetworkInterface_init_def)

section \<open>The invariant is kept\<close>




















section \<open>Longest-prefix match\<close>

lemma mask_32: "(mask 32 :: 32 word) = - 1"
  using mask_full [where 'a = 32] by simp

lemma all_ones_32: "(0xFFFFFFFF :: 32 word) = - 1"
  by simp

lemma prefix_mask_bit: "bit (prefix_mask n) i \<longleftrightarrow> i < 32 \<and> 32 - n \<le> i"
  by (auto simp: prefix_mask_def bit_not_iff bit_mask_iff)

lemma isPrefixMatch_eq:
  assumes "pl \<le> 32"
  shows "isPrefixMatch a b pl =
           Inr ((a AND prefix_mask (unat pl)) = (b AND prefix_mask (unat pl)))"
proof (cases "pl = 0")
  case True
  then show ?thesis by (simp add: isPrefixMatch_def prefix_mask_def mask_32)
next
  case nz: False
  show ?thesis
  proof (cases "pl = 32")
    case True
    then show ?thesis by (simp add: isPrefixMatch_def prefix_mask_def all_ones_32)
  next
    case False
    have "push_bit (32 - unat pl) (NOT 0 :: 32 word) = NOT (mask (32 - unat pl))"
      by (simp add: push_bit_minus_one_eq_not_mask)
    with nz False assms show ?thesis
      by (simp add: isPrefixMatch_def prefix_mask_def Let_def not_less)
  qed
qed

lemma isPrefixMatch_matches:
  "prefix_length e \<le> 32 \<Longrightarrow>
     isPrefixMatch d (route_prefix e) (prefix_length e) = Inr (matches d e)"
  by (simp add: isPrefixMatch_eq matches_def)

lemma matches_zero: "prefix_length e = 0 \<Longrightarrow> matches d e"
  by (simp add: matches_def prefix_mask_def mask_32)

lemma matches_full: "prefix_length e = 32 \<Longrightarrow> matches d e \<longleftrightarrow> d = route_prefix e"
  by (simp add: matches_def prefix_mask_def)

lemma lpm_scan_step:
  assumes "prefix_length e \<le> 32"
  shows "lpm_scan d (e # es) (te, best) =
           (if matches d e \<and> best < uint (prefix_length e)
            then lpm_scan d es (e, uint (prefix_length e))
            else lpm_scan d es (te, best))"
  by (simp add: isPrefixMatch_matches [OF assms])

lemma lpm_scan_keep:
  assumes "\<forall>e\<in>set es. prefix_length e \<le> 32"
    "\<forall>e\<in>set es. matches d e \<longrightarrow> uint (prefix_length e) \<le> best"
  shows "lpm_scan d es (te, best) = Inr (te, best)"
  using assms
proof (induction es)
  case Nil
  then show ?case by simp
next
  case (Cons e es)
  then have "prefix_length e \<le> 32" by simp
  from lpm_scan_step [OF this] Cons show ?case by (auto simp del: lpm_scan.simps)
qed

lemma lpm_scan_first:
  assumes "\<forall>e\<in>set (pre @ E # post). prefix_length e \<le> 32"
    "matches d E" "best < uint (prefix_length E)"
    "\<forall>e\<in>set pre. matches d e \<longrightarrow> prefix_length e < prefix_length E"
    "\<forall>e\<in>set post. matches d e \<longrightarrow> prefix_length e \<le> prefix_length E"
  shows "lpm_scan d (pre @ E # post) (te, best) = Inr (E, uint (prefix_length E))"
  using assms
proof (induction pre arbitrary: te best)
  case Nil
  then have le: "prefix_length E \<le> 32" and p: "\<forall>e\<in>set post. prefix_length e \<le> 32"
    by simp_all
  from Nil.prems(5) have "\<forall>e\<in>set post. matches d e \<longrightarrow>
      uint (prefix_length e) \<le> uint (prefix_length E)"
    by (simp add: word_le_def)
  from lpm_scan_keep [OF p this] Nil.prems(2,3) show ?case
    by (simp add: lpm_scan_step [OF le] del: lpm_scan.simps)
next
  case (Cons e pre)
  then have le: "prefix_length e \<le> 32" by simp
  from Cons.prems have rest: "\<forall>e\<in>set (pre @ E # post). prefix_length e \<le> 32"
    "\<forall>e\<in>set pre. matches d e \<longrightarrow> prefix_length e < prefix_length E"
    by simp_all
  show ?case
  proof (cases "matches d e \<and> best < uint (prefix_length e)")
    case True
    with Cons.prems(4) have "uint (prefix_length e) < uint (prefix_length E)"
      by (simp add: word_less_def)
    from Cons.IH [OF rest(1) Cons.prems(2) this rest(2) Cons.prems(5)] True
    show ?thesis by (simp add: lpm_scan_step [OF le] del: lpm_scan.simps)
  next
    case False
    from Cons.IH [OF rest(1) Cons.prems(2,3) rest(2) Cons.prems(5)] False
    show ?thesis by (auto simp add: lpm_scan_step [OF le] simp del: lpm_scan.simps)
  qed
qed

lemma lpm_scan_result:
  assumes "\<forall>e\<in>set es. prefix_length e \<le> 32"
  shows "\<exists>E L. lpm_scan d es (te, best) = Inr (E, L) \<and>
           (if \<exists>e\<in>set es. matches d e \<and> best < uint (prefix_length e)
            then E \<in> set es \<and> matches d E \<and> L = uint (prefix_length E) \<and> best < L \<and>
                 (\<forall>e\<in>set es. matches d e \<longrightarrow> uint (prefix_length e) \<le> L)
            else E = te \<and> L = best)"
  using assms
proof (induction es arbitrary: te best)
  case Nil
  then show ?case by simp
next
  case (Cons e es)
  then have le: "prefix_length e \<le> 32" and p: "\<forall>e\<in>set es. prefix_length e \<le> 32"
    by simp_all
  show ?case
  proof (cases "matches d e \<and> best < uint (prefix_length e)")
    case True
    from Cons.IH [OF p, of e "uint (prefix_length e)"] obtain E L where
      r: "lpm_scan d es (e, uint (prefix_length e)) = Inr (E, L)"
      and c: "if \<exists>x\<in>set es. matches d x \<and> uint (prefix_length e) < uint (prefix_length x)
            then E \<in> set es \<and> matches d E \<and> L = uint (prefix_length E) \<and>
                 uint (prefix_length e) < L \<and>
                 (\<forall>x\<in>set es. matches d x \<longrightarrow> uint (prefix_length x) \<le> L)
            else E = e \<and> L = uint (prefix_length e)"
      by blast
    from True r have "lpm_scan d (e # es) (te, best) = Inr (E, L)"
      by (simp add: lpm_scan_step [OF le] del: lpm_scan.simps)
    moreover from True c have "E \<in> set (e # es) \<and> matches d E \<and> L = uint (prefix_length E) \<and>
        best < L \<and> (\<forall>x\<in>set (e # es). matches d x \<longrightarrow> uint (prefix_length x) \<le> L)"
      by (auto split: if_splits simp: not_less)
    ultimately show ?thesis using True by auto
  next
    case False
    from Cons.IH [OF p, of te best] obtain E L where
      r: "lpm_scan d es (te, best) = Inr (E, L)"
      and c: "if \<exists>x\<in>set es. matches d x \<and> best < uint (prefix_length x)
            then E \<in> set es \<and> matches d E \<and> L = uint (prefix_length E) \<and> best < L \<and>
                 (\<forall>x\<in>set es. matches d x \<longrightarrow> uint (prefix_length x) \<le> L)
            else E = te \<and> L = best"
      by blast
    from False r have s: "lpm_scan d (e # es) (te, best) = Inr (E, L)"
      by (auto simp add: lpm_scan_step [OF le] simp del: lpm_scan.simps)
    show ?thesis
    proof (cases "\<exists>x\<in>set es. matches d x \<and> best < uint (prefix_length x)")
      case True
      with c False have "E \<in> set (e # es) \<and> matches d E \<and> L = uint (prefix_length E) \<and>
        best < L \<and> (\<forall>x\<in>set (e # es). matches d x \<longrightarrow> uint (prefix_length x) \<le> L)"
        by auto
      with s True show ?thesis by auto
    next
      case nx: False
      with c have "E = te \<and> L = best" by simp
      with s nx False show ?thesis by auto
    qed
  qed
qed


lemma lpm_scan_no_match:
  assumes wf: "\<forall>e\<in>set es. prefix_length e \<le> 32"
    and no: "\<forall>e\<in>set es. \<not> matches d e"
  shows "lpm_scan d es (te, best) = Inr (te, best)"
  using lpm_scan_keep [OF wf, of d best te] no by blast

text \<open>Claim C3. For a routing table whose prefix lengths are at most 32:
  \<^verbatim>\<open>isPrefixMatch\<close> holds exactly when destination and route prefix agree under
  the mask with the top \<open>prefix_length\<close> bits set (bit \<open>i\<close> of the mask of length
  \<open>n\<close> is set exactly for \<open>32 - n \<le> i < 32\<close>), so length 0 matches every
  destination and length 32 only the prefix itself; when some entry matches,
  the scan ends with a matching entry of the table whose length no matching
  entry exceeds; when none matches, the datagram is dropped and the router
  is unchanged.\<close>

theorem route_longest_prefix_match:
  assumes wf: "\<forall>e\<in>set (RoutingTable r). prefix_length e \<le> 32"
    and d: "d = IPv4Header.dst (InternetDatagram.header dgram)"
  shows "(\<forall>e\<in>set (RoutingTable r).
            isPrefixMatch d (route_prefix e) (prefix_length e) =
              Inr ((d AND prefix_mask (unat (prefix_length e))) =
                   (route_prefix e AND prefix_mask (unat (prefix_length e)))))
       \<and> (\<forall>n i. bit (prefix_mask n) i \<longleftrightarrow> i < 32 \<and> 32 - n \<le> i)
       \<and> (\<forall>e. prefix_length e = 0 \<longrightarrow> matches d e)
       \<and> (\<forall>e. prefix_length e = 32 \<longrightarrow> (matches d e \<longleftrightarrow> d = route_prefix e))
       \<and> ((\<exists>e\<in>set (RoutingTable r). matches d e) \<longrightarrow>
            (\<exists>E. lpm_scan d (RoutingTable r) (RoutingTableEntry_default, - 999) =
                    Inr (E, uint (prefix_length E)) \<and>
                 E \<in> set (RoutingTable r) \<and> matches d E \<and>
                 (\<forall>e\<in>set (RoutingTable r). matches d e \<longrightarrow> prefix_length e \<le> prefix_length E)))
       \<and> ((\<forall>e\<in>set (RoutingTable r). \<not> matches d e) \<longrightarrow> route_datagram c r dgram = Inr r)"
proof (intro conjI allI impI ballI)
  fix e assume "e \<in> set (RoutingTable r)"
  with wf have "prefix_length e \<le> 32" by blast
  then show "isPrefixMatch d (route_prefix e) (prefix_length e) =
              Inr ((d AND prefix_mask (unat (prefix_length e))) =
                   (route_prefix e AND prefix_mask (unat (prefix_length e))))"
    by (rule isPrefixMatch_eq)
next
  fix n i show "bit (prefix_mask n) i \<longleftrightarrow> i < 32 \<and> 32 - n \<le> i"
    by (rule prefix_mask_bit)
next
  fix e :: RoutingTableEntry assume "prefix_length e = 0"
  then show "matches d e" by (rule matches_zero)
next
  fix e :: RoutingTableEntry assume "prefix_length e = 32"
  then show "matches d e \<longleftrightarrow> d = route_prefix e" by (rule matches_full)
next
  assume "\<exists>e\<in>set (RoutingTable r). matches d e"
  then obtain e where e: "e \<in> set (RoutingTable r)" "matches d e" by blast
  have "- 999 < uint (prefix_length e)"
    by (rule less_le_trans [of _ 0]) simp_all
  with e have ex: "\<exists>e\<in>set (RoutingTable r). matches d e \<and> - 999 < uint (prefix_length e)"
    by blast
  from lpm_scan_result [OF wf, of d RoutingTableEntry_default "- 999"] ex
  obtain E L where "lpm_scan d (RoutingTable r) (RoutingTableEntry_default, - 999) = Inr (E, L)"
    "E \<in> set (RoutingTable r)" "matches d E" "L = uint (prefix_length E)"
    "\<forall>e\<in>set (RoutingTable r). matches d e \<longrightarrow> uint (prefix_length e) \<le> L"
    by auto
  then show "\<exists>E. lpm_scan d (RoutingTable r) (RoutingTableEntry_default, - 999) =
                    Inr (E, uint (prefix_length E)) \<and>
                 E \<in> set (RoutingTable r) \<and> matches d E \<and>
                 (\<forall>e\<in>set (RoutingTable r). matches d e \<longrightarrow> prefix_length e \<le> prefix_length E)"
    by (auto simp: word_le_def)
next
  assume no: "\<forall>e\<in>set (RoutingTable r). \<not> matches d e"
  from lpm_scan_no_match [OF wf no, of RoutingTableEntry_default "- 999"]
  show "route_datagram c r dgram = Inr r"
    by (simp add: route_datagram_def d [symmetric])
qed

text \<open>Claim C9. When the entry at index \<open>j\<close> matches, no matching entry is
  longer, and no matching entry before \<open>j\<close> has the same length, the scan
  selects the entry at \<open>j\<close>: of several longest matching entries the first
  one is taken.\<close>

theorem route_tie_break_first:
  assumes wf: "\<forall>e\<in>set (RoutingTable r). prefix_length e \<le> 32"
    and j: "j < length (RoutingTable r)"
    and m: "matches d (RoutingTable r ! j)"
    and longest: "\<forall>k<length (RoutingTable r). matches d (RoutingTable r ! k) \<longrightarrow>
        prefix_length (RoutingTable r ! k) \<le> prefix_length (RoutingTable r ! j)"
    and first: "\<forall>k<j. matches d (RoutingTable r ! k) \<longrightarrow>
        prefix_length (RoutingTable r ! k) \<noteq> prefix_length (RoutingTable r ! j)"
  shows "lpm_scan d (RoutingTable r) (RoutingTableEntry_default, - 999) =
           Inr (RoutingTable r ! j, uint (prefix_length (RoutingTable r ! j)))"
proof -
  let ?t = "RoutingTable r" and ?E = "RoutingTable r ! j"
  have split: "?t = take j ?t @ ?E # drop (Suc j) ?t"
    using j by (rule id_take_nth_drop)
  have wf': "\<forall>e\<in>set (take j ?t @ ?E # drop (Suc j) ?t). prefix_length e \<le> 32"
    using wf split by simp
  have b: "- 999 < uint (prefix_length ?E)"
    by (rule less_le_trans [of _ 0]) simp_all
  have pre: "\<forall>e\<in>set (take j ?t). matches d e \<longrightarrow> prefix_length e < prefix_length ?E"
  proof (intro ballI impI)
    fix e assume "e \<in> set (take j ?t)" and me: "matches d e"
    then obtain k where k: "k < j" "e = ?t ! k"
      using j by (auto simp: in_set_conv_nth)
    with j longest me have "prefix_length e \<le> prefix_length ?E" by simp
    moreover from k first me have "prefix_length e \<noteq> prefix_length ?E" by simp
    ultimately show "prefix_length e < prefix_length ?E" by simp
  qed
  have post: "\<forall>e\<in>set (drop (Suc j) ?t). matches d e \<longrightarrow> prefix_length e \<le> prefix_length ?E"
  proof (intro ballI impI)
    fix e assume "e \<in> set (drop (Suc j) ?t)" and me: "matches d e"
    then have "e \<in> set ?t" by (auto dest: in_set_dropD)
    then obtain k where "k < length ?t" "e = ?t ! k"
      by (auto simp: in_set_conv_nth)
    with longest me show "prefix_length e \<le> prefix_length ?E" by simp
  qed
  from lpm_scan_first [OF wf' m b pre post, of RoutingTableEntry_default] split
  show ?thesis by simp
qed

text \<open>Claim C4. For a datagram whose scan selected the entry \<open>E\<close> with a
  non-negative length: with a time to live of 0 or 1 the router is unchanged
  and no interface is called; otherwise, when \<open>E\<close> names an interface of the
  router, \<^verbatim>\<open>send_datagram\<close> is called once, on that interface, with the datagram
  whose time to live is one less and whose checksum is recomputed, and with
  the next hop of \<open>E\<close> or, when \<open>E\<close> has none, the datagram's destination; only
  that interface changes.\<close>

theorem route_forwards:
  assumes sel: "lpm_scan (IPv4Header.dst (InternetDatagram.header dgram)) (RoutingTable r)
                  (RoutingTableEntry_default, - 999) = Inr (E, L)"
    and found: "0 \<le> L"
    and fwd: "fwd = dgram\<lparr>InternetDatagram.header :=
                (InternetDatagram.header dgram)
                  \<lparr>IPv4Header.ttl := IPv4Header.ttl (InternetDatagram.header dgram) - 1,
                   cksum := checksum c ((InternetDatagram.header dgram)
                     \<lparr>IPv4Header.ttl := IPv4Header.ttl (InternetDatagram.header dgram) - 1\<rparr>)\<rparr>\<rparr>"
  shows "(IPv4Header.ttl (InternetDatagram.header dgram) \<le> 1 \<longrightarrow>
            route_datagram c r dgram = Inr r)
       \<and> (1 < IPv4Header.ttl (InternetDatagram.header dgram) \<and>
          interface_num E < length (interfaces r) \<longrightarrow>
            route_datagram c r dgram =
              (case send_datagram c (interfaces r ! interface_num E) fwd
                      (case next_hop E of
                         Some a \<Rightarrow> a
                       | None \<Rightarrow>
                           from_ipv4_numeric (IPv4Header.dst (InternetDatagram.header dgram))) of
                 Inl x \<Rightarrow> Inl x
               | Inr a \<Rightarrow> Inr (r\<lparr>interfaces := (interfaces r)[interface_num E := a]\<rparr>)) \<and>
            unat (IPv4Header.ttl (InternetDatagram.header fwd)) =
              unat (IPv4Header.ttl (InternetDatagram.header dgram)) - 1)"
proof (intro conjI impI)
  assume "IPv4Header.ttl (InternetDatagram.header dgram) \<le> 1"
  then have "\<not> 1 < IPv4Header.ttl (InternetDatagram.header dgram)"
    by (simp add: not_less)
  then show "route_datagram c r dgram = Inr r"
    using found by (simp add: route_datagram_def sel)
next
  assume a: "1 < IPv4Header.ttl (InternetDatagram.header dgram) \<and>
          interface_num E < length (interfaces r)"
  then show "route_datagram c r dgram =
              (case send_datagram c (interfaces r ! interface_num E) fwd
                      (case next_hop E of
                         Some a \<Rightarrow> a
                       | None \<Rightarrow>
                           from_ipv4_numeric (IPv4Header.dst (InternetDatagram.header dgram))) of
                 Inl x \<Rightarrow> Inl x
               | Inr a \<Rightarrow> Inr (r\<lparr>interfaces := (interfaces r)[interface_num E := a]\<rparr>))"
    using found
    by (simp add: route_datagram_def sel fwd compute_checksum_def Let_def
          cong: option.case_cong)
next
  assume a: "1 < IPv4Header.ttl (InternetDatagram.header dgram) \<and>
          interface_num E < length (interfaces r)"
  then have "1 \<le> IPv4Header.ttl (InternetDatagram.header dgram)"
    by (auto intro: less_imp_le)
  then have "unat (IPv4Header.ttl (InternetDatagram.header dgram) - 1) =
             unat (IPv4Header.ttl (InternetDatagram.header dgram)) - 1"
    by (simp add: unat_sub)
  then show "unat (IPv4Header.ttl (InternetDatagram.header fwd)) =
              unat (IPv4Header.ttl (InternetDatagram.header dgram)) - 1"
    by (simp add: fwd)
qed


lemma example_routes_wf: "\<forall>e\<in>set (RoutingTable example_router). prefix_length e \<le> 32"
  by (simp add: example_router_def example_routes_def)

lemma example_scan:
  "lpm_scan 0x0A010203 example_routes (RoutingTableEntry_default, - 999) =
     Inr (\<lparr> route_prefix = 0x0A010000, prefix_length = 16,
            next_hop = Some (from_ipv4_numeric 0x0A000007), interface_num = 1 \<rparr>, 16)"
  by (simp add: example_routes_def isPrefixMatch_def RoutingTableEntry_default_def Let_def
        mask_eq_exp_minus_1)

theorem route_longest_prefix_match_witness:
  "(\<exists>E. lpm_scan 0x0A010203 example_routes (RoutingTableEntry_default, - 999) =
          Inr (E, uint (prefix_length E)) \<and>
        E \<in> set example_routes \<and> prefix_length E = 16)
   \<and> route_datagram example_codecs example_router (example_dgram 64 0x0B000001) =
       Inr example_router"
proof
  have m: "matches 0x0A010203 (example_routes ! 0)"
    by (simp add: matches_def prefix_mask_def example_routes_def mask_eq_exp_minus_1)
  from route_longest_prefix_match [OF example_routes_wf, of "0x0A010203"
      "example_dgram 64 0x0A010203" example_codecs] m
  obtain E where E: "lpm_scan 0x0A010203 example_routes (RoutingTableEntry_default, - 999) =
          Inr (E, uint (prefix_length E))" "E \<in> set example_routes"
    by (auto simp: example_dgram_def example_router_def example_routes_def)
  with example_scan have "prefix_length E = 16" by simp
  with E show "\<exists>E. lpm_scan 0x0A010203 example_routes (RoutingTableEntry_default, - 999) =
          Inr (E, uint (prefix_length E)) \<and>
        E \<in> set example_routes \<and> prefix_length E = 16"
    by blast
  have no: "\<forall>e\<in>set (RoutingTable example_router). \<not> matches 0x0B000001 e"
    by (simp add: matches_def prefix_mask_def example_router_def example_routes_def
          mask_eq_exp_minus_1)
  from route_longest_prefix_match [OF example_routes_wf, of "0x0B000001"
      "example_dgram 64 0x0B000001" example_codecs] no
  show "route_datagram example_codecs example_router (example_dgram 64 0x0B000001) =
       Inr example_router"
    by (simp add: example_dgram_def)
qed


theorem route_tie_break_first_witness:
  "lpm_scan 0x0A010203 example_routes (RoutingTableEntry_default, - 999) =
     Inr (\<lparr> route_prefix = 0x0A010000, prefix_length = 16,
            next_hop = Some (from_ipv4_numeric 0x0A000007), interface_num = 1 \<rparr>, 16)
   \<and> prefix_length (example_routes ! 2) = 16
   \<and> matches 0x0A010203 (example_routes ! 2)"
proof (intro conjI)
  have len: "length (RoutingTable example_router) = 3"
    by (simp add: example_router_def example_routes_def)
  have all: "\<And>P. (\<forall>k<3::nat. P k) \<longleftrightarrow> P 0 \<and> P (Suc 0) \<and> P (Suc (Suc 0))"
    by (auto simp: less_Suc_eq numeral_3_eq_3)
  have one: "\<And>P. (\<forall>k<1::nat. P k) \<longleftrightarrow> P 0"
    by auto
  have "lpm_scan 0x0A010203 (RoutingTable example_router) (RoutingTableEntry_default, - 999) =
           Inr (RoutingTable example_router ! 1,
                uint (prefix_length (RoutingTable example_router ! 1)))"
  proof (rule route_tie_break_first [OF example_routes_wf])
    show "1 < length (RoutingTable example_router)" by (simp add: len)
    show "matches 0x0A010203 (RoutingTable example_router ! 1)"
      by (simp add: matches_def prefix_mask_def example_router_def example_routes_def
            mask_eq_exp_minus_1)
    show "\<forall>k<length (RoutingTable example_router).
           matches 0x0A010203 (RoutingTable example_router ! k) \<longrightarrow>
           prefix_length (RoutingTable example_router ! k)
             \<le> prefix_length (RoutingTable example_router ! 1)"
      unfolding len all by (simp add: example_router_def example_routes_def)
    show "\<forall>k<1. matches 0x0A010203 (RoutingTable example_router ! k) \<longrightarrow>
           prefix_length (RoutingTable example_router ! k)
             \<noteq> prefix_length (RoutingTable example_router ! 1)"
      unfolding one by (simp add: example_router_def example_routes_def)
  qed
  then show "lpm_scan 0x0A010203 example_routes (RoutingTableEntry_default, - 999) =
     Inr (\<lparr> route_prefix = 0x0A010000, prefix_length = 16,
            next_hop = Some (from_ipv4_numeric 0x0A000007), interface_num = 1 \<rparr>, 16)"
    by (simp add: example_router_def example_routes_def)
  show "prefix_length (example_routes ! 2) = 16"
    by (simp add: example_routes_def)
  show "matches 0x0A010203 (example_routes ! 2)"
    by (simp add: matches_def prefix_mask_def example_routes_def mask_eq_exp_minus_1)
qed

theorem route_forwards_witness:
  "(\<exists>r'. route_datagram example_codecs example_router (example_dgram 64 0x0A010203) = Inr r' \<and>
         interfaces r' ! 0 = interfaces example_router ! 0 \<and>
         IPQueues (interfaces r' ! 1) =
           [\<lparr> IPQueue.ip_address = 0x0A000007,
              datagrams =
                [\<lparr> InternetDatagram.header =
                     \<lparr> IPv4Header.ttl = 63, cksum = 578, IPv4Header.src = 0,
                       IPv4Header.dst = 0x0A010203 \<rparr>,
                   InternetDatagram.payload = [] \<rparr>] \<rparr>])
   \<and> route_datagram example_codecs example_router (example_dgram 1 0x0A010203) =
       Inr example_router"
proof
  let ?E = "\<lparr> route_prefix = 0x0A010000, prefix_length = 16,
            next_hop = Some (from_ipv4_numeric 0x0A000007), interface_num = 1 \<rparr>"
  have sel: "lpm_scan (IPv4Header.dst (InternetDatagram.header (example_dgram t 0x0A010203)))
               (RoutingTable example_router) (RoutingTableEntry_default, - 999) = Inr (?E, 16)"
    for t using example_scan by (simp add: example_dgram_def example_router_def)
  from route_forwards [OF sel [of 64] _ refl, of example_codecs]
  show "\<exists>r'. route_datagram example_codecs example_router (example_dgram 64 0x0A010203) = Inr r' \<and>
         interfaces r' ! 0 = interfaces example_router ! 0 \<and>
         IPQueues (interfaces r' ! 1) =
           [\<lparr> IPQueue.ip_address = 0x0A000007,
              datagrams =
                [\<lparr> InternetDatagram.header =
                     \<lparr> IPv4Header.ttl = 63, cksum = 578, IPv4Header.src = 0,
                       IPv4Header.dst = 0x0A010203 \<rparr>,
                   InternetDatagram.payload = [] \<rparr>] \<rparr>]"
    by (simp add: example_dgram_def example_router_def example_async_def example_codecs_def
          send_datagram_def isEntryInARPTable_def isEntryInIPQueues_def Let_def)
  from route_forwards [OF sel [of 1] _ refl, of example_codecs]
  show "route_datagram example_codecs example_router (example_dgram 1 0x0A010203) =
       Inr example_router"
    by (simp add: example_dgram_def)
qed

section \<open>The routing loop\<close>

text \<open>Every datagram that \<^verbatim>\<open>route\<close> takes from an interface goes through
  \<^verbatim>\<open>route_datagram\<close>, in the order of the queue, after it has been removed from
  the queue; an interface with nothing received leaves the router as it is.\<close>

lemma route_drain_empty:
  "i < length (interfaces r) \<Longrightarrow> datagrams_in (interfaces r ! i) = [] \<Longrightarrow>
     route_drain c i r = Inr r"
  by (subst route_drain.simps) (simp add: maybe_receive_def)

lemma route_drain_next:
  "i < length (interfaces r) \<Longrightarrow> datagrams_in (interfaces r ! i) = d # ds \<Longrightarrow>
     route_drain c i r =
       (case route_datagram c
               (r\<lparr>interfaces := (interfaces r)[i := (interfaces r ! i)\<lparr>datagrams_in := ds\<rparr>]\<rparr>) d of
          Inl x \<Rightarrow> Inl x
        | Inr r1 \<Rightarrow> route_drain c i r1)"
  by (subst route_drain.simps) (simp add: maybe_receive_def)

lemma route_nothing_received:
  "route example_codecs example_router = Inr example_router"
  by (simp add: route_def route_from.simps route_drain.simps maybe_receive_def
        example_router_def example_async_def)


text \<open>Scenario S5 of the spec: a datagram for 10.1.2.3 with time to live 64,
  received on interface 0, leaves the queue and waits on interface 1 for the
  resolution of 10.0.0.7, with time to live 63.\<close>

lemma route_scenario_S5:
  "\<exists>r'. route example_codecs
          (example_router\<lparr>interfaces :=
             [(example_async 1 0x0A000001)\<lparr>datagrams_in := [example_dgram 64 0x0A010203]\<rparr>,
              example_async 2 0xC0A80001]\<rparr>) = Inr r' \<and>
        datagrams_in (interfaces r' ! 0) = [] \<and>
        map IPQueue.ip_address (IPQueues (interfaces r' ! 1)) = [0x0A000007] \<and>
        map (\<lambda>d. IPv4Header.ttl (InternetDatagram.header d))
          (concat (map datagrams (IPQueues (interfaces r' ! 1)))) = [63]"
  by (simp add: route_def route_from.simps route_drain.simps maybe_receive_def
        route_datagram_def example_router_def example_routes_def example_async_def
        example_dgram_def example_codecs_def isPrefixMatch_def RoutingTableEntry_default_def
        compute_checksum_def send_datagram_def isEntryInARPTable_def isEntryInIPQueues_def
        Let_def mask_eq_exp_minus_1)

end
